theory Spec2Isabelle
  imports Main "HOL-Library.Word"
begin

unbundle bit_operations_syntax

section \<open>Byte strings and machine words\<close>

text \<open>
  \<^verbatim>\<open>String\<close> of base/aliases.h is \<^verbatim>\<open>std::string\<close>: a sequence of bytes.
  \<open>bytes\<close> gives the bytes of a text literal. Command-line flags and paths, which are
  only compared, are kept as HOL strings.
\<close>

type_synonym ui8 = "8 word"
type_synonym ui32 = "32 word"
type_synonym ui64 = "64 word"
type_synonym String = "ui8 list"

definition bytes :: "string \<Rightarrow> String" where
  "bytes s = map (\<lambda>c. of_nat (of_char c)) s"

section \<open>base/hash.cc: MakeHash\<close>

text \<open>
  Modelled from the spec: \<^verbatim>\<open>MurmurHash3_x64_128\<close> of third_party/smhasher, which
  \<^verbatim>\<open>MakeHash\<close> calls and which is not among the sources. The spec asks for a
  non-cryptographic 128-bit mixing hash; the definitions below are the x64 128-bit
  MurmurHash3 that the call names (block loop, tail switch, finalization), on a
  little-endian target. The digest that const_string_test.cc expects for
  \<^verbatim>\<open>"All your base are belong to us"\<close> pins them (lemma \<open>MakeHash_test_vector\<close>).
  The length is a \<open>nat\<close>: the width of the helper's length parameter is not modelled.
\<close>

definition ROTL64 :: "ui64 \<Rightarrow> nat \<Rightarrow> ui64" where
  "ROTL64 x r = push_bit r x OR drop_bit (64 - r) x"

definition fmix64 :: "ui64 \<Rightarrow> ui64" where
  "fmix64 k =
    (let k = k XOR drop_bit 33 k;
         k = k * 0xff51afd7ed558ccd;
         k = k XOR drop_bit 33 k;
         k = k * 0xc4ceb9fe1a85ec53
     in k XOR drop_bit 33 k)"

definition c1 :: ui64 where "c1 = 0x87c37b91114253d5"
definition c2 :: ui64 where "c2 = 0x4cf5ad432745937f"

text \<open>\<open>tail_bytes i bs\<close> xors byte \<open>j\<close> of \<open>bs\<close>, shifted left by \<open>8 * (i + j)\<close> bits, into 0:
  the little-endian value of at most eight bytes, highest index first as the tail
  switch falls through.\<close>

fun tail_bytes :: "nat \<Rightarrow> String \<Rightarrow> ui64" where
  "tail_bytes i [] = 0"
| "tail_bytes i (b # bs) = tail_bytes (Suc i) bs XOR push_bit (8 * i) (ucast b)"

definition getblock64 :: "String \<Rightarrow> nat \<Rightarrow> ui64" where
  "getblock64 p i = tail_bytes 0 (take 8 (drop (8 * i) p))"

definition mix_k1 :: "ui64 \<Rightarrow> ui64" where
  "mix_k1 k = ROTL64 (k * c1) 31 * c2"

definition mix_k2 :: "ui64 \<Rightarrow> ui64" where
  "mix_k2 k = ROTL64 (k * c2) 33 * c1"

definition body_step :: "ui64 \<Rightarrow> ui64 \<Rightarrow> ui64 \<times> ui64 \<Rightarrow> ui64 \<times> ui64" where
  "body_step k1 k2 h =
    (let h1 = fst h XOR mix_k1 k1;
         h1 = ROTL64 h1 27;
         h1 = h1 + snd h;
         h1 = h1 * 5 + 0x52dce729;
         h2 = snd h XOR mix_k2 k2;
         h2 = ROTL64 h2 31;
         h2 = h2 + h1;
         h2 = h2 * 5 + 0x38495ab5
     in (h1, h2))"

definition tail_step :: "String \<Rightarrow> ui64 \<times> ui64 \<Rightarrow> ui64 \<times> ui64" where
  "tail_step tail h =
    (let h2 = (if 8 < length tail then snd h XOR mix_k2 (tail_bytes 0 (drop 8 tail)) else snd h);
         h1 = (if 0 < length tail then fst h XOR mix_k1 (tail_bytes 0 (take 8 tail)) else fst h)
     in (h1, h2))"

definition finalization :: "nat \<Rightarrow> ui64 \<times> ui64 \<Rightarrow> ui64 \<times> ui64" where
  "finalization len h =
    (let h1 = fst h XOR of_nat len;
         h2 = snd h XOR of_nat len;
         h1 = h1 + h2;
         h2 = h2 + h1;
         h1 = fmix64 h1;
         h2 = fmix64 h2;
         h1 = h1 + h2;
         h2 = h2 + h1
     in (h1, h2))"

definition MurmurHash3_x64_128 :: "String \<Rightarrow> nat \<Rightarrow> ui32 \<Rightarrow> ui64 \<times> ui64" where
  "MurmurHash3_x64_128 key len seed =
    (let nblocks = len div 16;
         h = fold (\<lambda>i. body_step (getblock64 key (i * 2)) (getblock64 key (i * 2 + 1)))
               [0..<nblocks] (ucast seed, ucast seed);
         h = tail_step (take (len mod 16) (drop (nblocks * 16) key)) h
     in finalization len h)"

text \<open>The two result words as the helper leaves them in the 16-byte buffer.\<close>

definition store64 :: "ui64 \<Rightarrow> String" where
  "store64 w = map (\<lambda>i. ucast (drop_bit (8 * i) w)) [0..<8]"

definition out_buf :: "ui64 \<times> ui64 \<Rightarrow> String" where
  "out_buf h = store64 (fst h) @ store64 (snd h)"

text \<open>
  \<^verbatim>\<open>String MakeHash(const String& input)\<close>: hashes the whole input with seed 0 into
  \<^verbatim>\<open>char buf[16]\<close> and returns \<^verbatim>\<open>String(buf, 16)\<close>. The histogram counter it also
  creates does not touch the result and is left out.
\<close>

definition MakeHash :: "String \<Rightarrow> String" where
  "MakeHash input =
    (let buf = out_buf (MurmurHash3_x64_128 input (length input) 0)
     in take 16 buf)"

section \<open>base/optional.h: the hash of an optional\<close>

text \<open>
  \<^verbatim>\<open>std::hash<base::optional<T>>::operator()\<close>:
  \<^verbatim>\<open>static_cast<bool>(optional) ? hash<T>()(*optional) : 0\<close>.
  An optional is either unset or holds a value; \<open>hash_T\<close> stands for \<^verbatim>\<open>hash<T>()\<close> and
  the word length \<open>'s\<close> for the width of \<^verbatim>\<open>size_t\<close>.
\<close>

datatype 'a optional = nullopt | make_optional 'a

definition hash_optional :: "('a \<Rightarrow> 's::len word) \<Rightarrow> 'a optional \<Rightarrow> 's word" where
  "hash_optional hash_T optional = (case optional of make_optional v \<Rightarrow> hash_T v | nullopt \<Rightarrow> 0)"

section \<open>base/const_string: ConstString::Hash\<close>

text \<open>
  Modelled from the spec: \<^verbatim>\<open>ConstString\<close> and \<^verbatim>\<open>ConstString::Hash\<close> of base/const_string.cc,
  which is not among the sources; const_string_test.cc is. A \<^verbatim>\<open>ConstString\<close> is built
  from one string or from a \<^verbatim>\<open>Rope\<close>, a list of chunks. The spec asks for a hash that is
  streaming-friendly and accepts its input as a chunked sequence: over a rope the model
  feeds the chunks one after the other to the MurmurHash3 block function, keeping the
  bytes that do not fill a 16-byte block for the next chunk, and treats what is left at
  the end as the tail. Over one string it is the one-shot hash. The digest the test
  expects for all three of its strings pins both (lemma \<open>ConstStringTest_Hash\<close>).
\<close>

datatype ConstString = FromString String | FromRope "String list"

record hasher =
  h_state :: "ui64 \<times> ui64"
  h_pending :: String
  h_total :: nat

text \<open>\<open>absorb hh buf\<close> runs the block step over every whole 16-byte block at the front of
  \<open>buf\<close> and returns the state with the bytes left over.\<close>

function absorb :: "ui64 \<times> ui64 \<Rightarrow> String \<Rightarrow> (ui64 \<times> ui64) \<times> String" where
  "absorb hh buf =
    (if 16 \<le> length buf
     then absorb (body_step (getblock64 buf 0) (getblock64 buf 1) hh) (drop 16 buf)
     else (hh, buf))"
  by pat_completeness auto
termination
  by (relation "measure (\<lambda>(hh, buf). length buf)") auto

declare absorb.simps [simp del]

definition HashInit :: "ui32 \<Rightarrow> hasher" where
  "HashInit seed = \<lparr>h_state = (ucast seed, ucast seed), h_pending = [], h_total = 0\<rparr>"

definition HashUpdate :: "hasher \<Rightarrow> String \<Rightarrow> hasher" where
  "HashUpdate st chunk =
    (let r = absorb (h_state st) (h_pending st @ chunk)
     in \<lparr>h_state = fst r, h_pending = snd r, h_total = h_total st + length chunk\<rparr>)"

definition HashFinal :: "hasher \<Rightarrow> ui64 \<times> ui64" where
  "HashFinal st = finalization (h_total st) (tail_step (h_pending st) (h_state st))"

fun Hash :: "ConstString \<Rightarrow> String" where
  "Hash (FromString str) = take 16 (out_buf (MurmurHash3_x64_128 str (length str) 0))"
| "Hash (FromRope rope) = take 16 (out_buf (HashFinal (fold (\<lambda>chunk st. HashUpdate st chunk) rope (HashInit 0))))"

section \<open>client/clang_flag_set: ClangFlagSet::ProcessFlags\<close>

text \<open>
  Modelled from the spec: \<^verbatim>\<open>ClangFlagSet::ProcessFlags\<close> of client/clang_flag_set.cc and the
  \<^verbatim>\<open>proto::Flags\<close> message, which are not among the sources; the test
  clang_flag_set_test.cc is. The buckets are those of the spec's table of flag
  classification rules and of its \<^verbatim>\<open>Flags\<close> message
  \<^verbatim>\<open>{compiler: {path, version}, input, output, language, other[], non_cached[], action}\<close>;
  the classifications are the spec's \<^verbatim>\<open>COMPILE | PREPROCESS | UNKNOWN\<close>. What the table
  leaves open is taken from the test's command line and the flags it expects: empty
  leading arguments are skipped, the first argument is the path of the compiler,
  \<^verbatim>\<open>-x\<close> gives the language, an argument that is neither a flag (it does not begin with
  \<^verbatim>\<open>-\<close>) nor the value of one is the positional source path, and a command line with a
  source path is a compilation. Which flags of the other bucket are followed by a value
  (\<^verbatim>\<open>-triple x86_64-unknown-linux-gnu\<close>) is a table of the compiler driver that is not among
  the sources either: the parameter \<open>takes_value\<close>. A flag that lacks its value makes the
  command line unparseable: \<^verbatim>\<open>UNKNOWN\<close>. The spec names no flag that makes an invocation
  \<^verbatim>\<open>PREPROCESS\<close>, and the model yields none.
\<close>

datatype Action = COMPILE | PREPROCESS | UNKNOWN



















section \<open>Properties of MakeHash\<close>

lemma length_store64: "length (store64 w) = 8"
  by (simp add: store64_def)

lemma length_out_buf: "length (out_buf h) = 16"
  by (simp add: out_buf_def length_store64)

lemma bytes_test_string:
  "bytes ''All your base are belong to us'' =
    [65, 108, 108, 32, 121, 111, 117, 114, 32, 98, 97, 115, 101, 32, 97, 114, 101, 32, 98, 101,
     108, 111, 110, 103, 32, 116, 111, 32, 117, 115]"
  by (simp add: bytes_def)

lemma MurmurHash3_test_string:
  "MurmurHash3_x64_128
     [65, 108, 108, 32, 121, 111, 117, 114, 32, 98, 97, 115, 101, 32, 97, 114, 101, 32, 98, 101,
      108, 111, 110, 103, 32, 116, 111, 32, 117, 115] 30 0
   = (0x6c851edf372ee9c9, 0xb8254210febf0abd)"
  by (simp add: MurmurHash3_x64_128_def getblock64_def body_step_def mix_k1_def mix_k2_def
      c1_def c2_def ROTL64_def tail_step_def finalization_def fmix64_def)

lemma out_buf_test_string:
  "out_buf (0x6c851edf372ee9c9, 0xb8254210febf0abd) =
    [0xc9, 0xe9, 0x2e, 0x37, 0xdf, 0x1e, 0x85, 0x6c, 0xbd, 0x0a, 0xbf, 0xfe, 0x10, 0x42, 0x25, 0xb8]"
  by (simp add: out_buf_def store64_def upt_rec)

text \<open>The digest \<^verbatim>\<open>c9e92e37df1e856cbd0abffe104225b8\<close> of const_string_test.cc.\<close>

lemma MakeHash_test_vector:
  "MakeHash (bytes ''All your base are belong to us'') =
    [0xc9, 0xe9, 0x2e, 0x37, 0xdf, 0x1e, 0x85, 0x6c, 0xbd, 0x0a, 0xbf, 0xfe, 0x10, 0x42, 0x25, 0xb8]"
proof -
  have len: "length (bytes ''All your base are belong to us'') = 30"
    by (simp add: bytes_def)
  show ?thesis
    unfolding MakeHash_def Let_def len
    unfolding bytes_test_string MurmurHash3_test_string out_buf_test_string
    by simp
qed

text \<open>
  C1. For every input byte string, MakeHash returns a digest of exactly 16 bytes, and
  equal inputs give equal digests.
\<close>

theorem MakeHash_digest_16_bytes_deterministic:
  "length (MakeHash input) = 16 \<and> (input = input' \<longrightarrow> MakeHash input = MakeHash input')"
  by (simp add: MakeHash_def length_out_buf)

theorem MakeHash_digest_16_bytes_deterministic_witness:
  "[1, 2, 3] = [1, 2] @ [3 :: ui8] \<and> length (MakeHash [1, 2, 3]) = 16
    \<and> MakeHash [1, 2, 3] = MakeHash ([1, 2] @ [3])"
  using MakeHash_digest_16_bytes_deterministic [of "[1, 2, 3]" "[1, 2] @ [3]"] by simp

section \<open>Properties of the hash of an optional\<close>

text \<open>
  C10. The hash of an optional is 0 when it is unset and the hash of the contained
  value when it is set; so an unset optional has the same hash as every value whose
  hash is 0.
\<close>

theorem hash_optional_unset_zero:
  "hash_optional hash_T nullopt = 0
    \<and> hash_optional hash_T (make_optional v) = hash_T v
    \<and> (hash_T v = 0 \<longrightarrow> hash_optional hash_T nullopt = hash_optional hash_T (make_optional v))"
  by (simp add: hash_optional_def)

theorem hash_optional_unset_zero_witness:
  "(of_int :: int \<Rightarrow> ui64) 0 = 0
    \<and> hash_optional (of_int :: int \<Rightarrow> ui64) nullopt = 0
    \<and> hash_optional (of_int :: int \<Rightarrow> ui64) (make_optional 0) = of_int 0
    \<and> hash_optional (of_int :: int \<Rightarrow> ui64) nullopt = hash_optional of_int (make_optional 0)"
  using hash_optional_unset_zero [of "of_int :: int \<Rightarrow> ui64" 0] by simp

section \<open>Properties of ConstString::Hash\<close>

lemma absorb_append:
  "absorb hh (a @ b) = absorb (fst (absorb hh a)) (snd (absorb hh a) @ b)"
proof (induction hh a rule: absorb.induct)
  case (1 hh buf)
  show ?case
  proof (cases "16 \<le> length buf")
    case True
    then have g: "getblock64 (buf @ b) 0 = getblock64 buf 0" "getblock64 (buf @ b) (Suc 0) = getblock64 buf (Suc 0)"
      by (simp_all add: getblock64_def)
    from True have "absorb hh (buf @ b) =
        absorb (body_step (getblock64 buf 0) (getblock64 buf 1) hh) (drop 16 buf @ b)"
      by (subst absorb.simps) (simp add: g)
    also have "\<dots> = absorb (fst (absorb (body_step (getblock64 buf 0) (getblock64 buf 1) hh) (drop 16 buf)))
        (snd (absorb (body_step (getblock64 buf 0) (getblock64 buf 1) hh) (drop 16 buf)) @ b)"
      using "1.IH" [OF True] .
    also have "absorb (body_step (getblock64 buf 0) (getblock64 buf 1) hh) (drop 16 buf) = absorb hh buf"
      using True by (subst (2) absorb.simps) simp
    finally show ?thesis .
  next
    case False
    then have "absorb hh buf = (hh, buf)"
      by (subst absorb.simps) simp
    then show ?thesis by simp
  qed
qed

lemma getblock64_drop16: "getblock64 (drop 16 s) i = getblock64 s (Suc (Suc i))"
  by (simp add: getblock64_def add.commute)

lemma absorb_blocks:
  "absorb hh s =
    (fold (\<lambda>i. body_step (getblock64 s (i * 2)) (getblock64 s (i * 2 + 1))) [0..<length s div 16] hh,
     drop (length s div 16 * 16) s)"
proof (induction hh s rule: absorb.induct)
  case (1 hh buf)
  let ?f = "\<lambda>s i. body_step (getblock64 s (i * 2)) (getblock64 s (i * 2 + 1))"
  show ?case
  proof (cases "16 \<le> length buf")
    case True
    define n where "n = (length buf - 16) div 16"
    have n: "length buf div 16 = Suc n"
      using True unfolding n_def by (simp add: le_div_geq)
    have "fold (?f buf) [0..<Suc n] hh = fold (?f buf) (map Suc [0..<n]) (?f buf 0 hh)"
      by (simp add: upt_conv_Cons map_Suc_upt del: upt_Suc)
    also have "\<dots> = fold (?f (drop 16 buf)) [0..<n] (?f buf 0 hh)"
      by (simp add: fold_map comp_def getblock64_drop16)
    finally have f: "fold (?f buf) [0..<Suc n] hh = fold (?f (drop 16 buf)) [0..<n] (?f buf 0 hh)" .
    have d: "drop (Suc n * 16) buf = drop (n * 16) (drop 16 buf)"
      by (simp add: add.commute)
    have "absorb hh buf = absorb (?f buf 0 hh) (drop 16 buf)"
      using True by (subst absorb.simps) simp
    also have "\<dots> = (fold (?f (drop 16 buf)) [0..<n] (?f buf 0 hh), drop (n * 16) (drop 16 buf))"
      using "1.IH" [OF True] by (simp add: n_def)
    finally show ?thesis
      unfolding n f d .
  next
    case False
    then have "absorb hh buf = (hh, buf)"
      by (subst absorb.simps) simp
    with False show ?thesis by simp
  qed
qed

lemma MurmurHash3_absorb:
  "MurmurHash3_x64_128 key (length key) seed =
    finalization (length key)
      (tail_step (snd (absorb (ucast seed, ucast seed) key)) (fst (absorb (ucast seed, ucast seed) key)))"
proof -
  have "take (length key mod 16) (drop (length key div 16 * 16) key) = drop (length key div 16 * 16) key"
    by (simp add: minus_mult_div_eq_mod mult.commute)
  then show ?thesis
    by (simp add: MurmurHash3_x64_128_def absorb_blocks Let_def)
qed

lemma fold_HashUpdate:
  "h_state st = fst (absorb h0 content) \<Longrightarrow> h_pending st = snd (absorb h0 content) \<Longrightarrow> h_total st = length content \<Longrightarrow>
   fold (\<lambda>chunk st. HashUpdate st chunk) rope st =
     \<lparr>h_state = fst (absorb h0 (content @ concat rope)), h_pending = snd (absorb h0 (content @ concat rope)),
      h_total = length (content @ concat rope)\<rparr>"
proof (induction rope arbitrary: st content)
  case Nil
  then show ?case by simp
next
  case (Cons chunk rope)
  have u: "HashUpdate st chunk = \<lparr>h_state = fst (absorb h0 (content @ chunk)), h_pending = snd (absorb h0 (content @ chunk)),
      h_total = length (content @ chunk)\<rparr>"
    using Cons.prems by (simp add: HashUpdate_def Let_def absorb_append [of h0 content chunk])
  show ?case
    using Cons.IH [of "HashUpdate st chunk" "content @ chunk"] by (simp add: u)
qed

lemma absorb_Nil: "absorb hh [] = (hh, [])"
  by (subst absorb.simps) simp

lemma Hash_FromRope:
  "Hash (FromRope chunks) =
    take 16 (out_buf (MurmurHash3_x64_128 (concat chunks) (length (concat chunks)) 0))"
  using fold_HashUpdate [of "HashInit 0" "(0, 0)" "[]" chunks]
  by (simp add: HashInit_def absorb_Nil HashFinal_def MurmurHash3_absorb)

lemma Hash_FromString_MakeHash: "Hash (FromString str) = MakeHash str"
  by (simp add: MakeHash_def)

text \<open>The three expectations of \<^verbatim>\<open>TEST(ConstStringTest, Hash)\<close>.\<close>

lemma ConstStringTest_Hash:
  "Hash (FromString (bytes ''All your base are belong to us'')) =
    [0xc9, 0xe9, 0x2e, 0x37, 0xdf, 0x1e, 0x85, 0x6c, 0xbd, 0x0a, 0xbf, 0xfe, 0x10, 0x42, 0x25, 0xb8]"
  "Hash (FromRope [bytes ''All '', bytes ''your base'', bytes '' are belong to us'']) =
    [0xc9, 0xe9, 0x2e, 0x37, 0xdf, 0x1e, 0x85, 0x6c, 0xbd, 0x0a, 0xbf, 0xfe, 0x10, 0x42, 0x25, 0xb8]"
  "Hash (FromRope [bytes ''All your'', bytes '' base are belong to us'']) =
    [0xc9, 0xe9, 0x2e, 0x37, 0xdf, 0x1e, 0x85, 0x6c, 0xbd, 0x0a, 0xbf, 0xfe, 0x10, 0x42, 0x25, 0xb8]"
proof -
  have r1: "concat [bytes ''All '', bytes ''your base'', bytes '' are belong to us'']
      = bytes ''All your base are belong to us''"
    by (simp add: bytes_def)
  have r2: "concat [bytes ''All your'', bytes '' base are belong to us'']
      = bytes ''All your base are belong to us''"
    by (simp add: bytes_def)
  have whole: "take 16 (out_buf (MurmurHash3_x64_128 (bytes ''All your base are belong to us'')
        (length (bytes ''All your base are belong to us'')) 0)) =
    [0xc9, 0xe9, 0x2e, 0x37, 0xdf, 0x1e, 0x85, 0x6c, 0xbd, 0x0a, 0xbf, 0xfe, 0x10, 0x42, 0x25, 0xb8]"
    using MakeHash_test_vector unfolding MakeHash_def Let_def .
  show "Hash (FromString (bytes ''All your base are belong to us'')) =
    [0xc9, 0xe9, 0x2e, 0x37, 0xdf, 0x1e, 0x85, 0x6c, 0xbd, 0x0a, 0xbf, 0xfe, 0x10, 0x42, 0x25, 0xb8]"
    unfolding Hash_FromString_MakeHash by (rule MakeHash_test_vector)
  show "Hash (FromRope [bytes ''All '', bytes ''your base'', bytes '' are belong to us'']) =
    [0xc9, 0xe9, 0x2e, 0x37, 0xdf, 0x1e, 0x85, 0x6c, 0xbd, 0x0a, 0xbf, 0xfe, 0x10, 0x42, 0x25, 0xb8]"
    unfolding Hash_FromRope r1 by (rule whole)
  show "Hash (FromRope [bytes ''All your'', bytes '' base are belong to us'']) =
    [0xc9, 0xe9, 0x2e, 0x37, 0xdf, 0x1e, 0x85, 0x6c, 0xbd, 0x0a, 0xbf, 0xfe, 0x10, 0x42, 0x25, 0xb8]"
    unfolding Hash_FromRope r2 by (rule whole)
qed

text \<open>
  C6. Hashing a byte sequence presented as a rope of chunks yields the same 128-bit
  digest as hashing the whole sequence at once, for every way of cutting it into chunks.
\<close>

theorem Hash_rope_eq_Hash_concat:
  "Hash (FromRope chunks) = Hash (FromString (concat chunks))
    \<and> length (Hash (FromRope chunks)) = 16"
proof -
  have "Hash (FromRope chunks) = Hash (FromString (concat chunks))"
    unfolding Hash_FromRope by simp
  moreover have "length (Hash (FromRope chunks)) = 16"
    unfolding Hash_FromRope by (simp add: length_out_buf)
  ultimately show ?thesis
    by (rule conjI)
qed

section \<open>Properties of ProcessFlags\<close>








end
